theory Spec2Isabelle
  imports Main "HOL-Library.AList"
begin

section \<open>The cache client of tab-stash (src/cache-client.ts)\<close>

text \<open>
  The client keeps a local mirror of a cache that a service owns. \<open>get\<close> hands out a
  plain object per key, which later messages of the service update in place; \<open>set\<close>
  writes the object and tells the service. The claims are about which object is bound to
  a key, so objects live in a store and are named by references: a reference is the
  index of the object in the store, \<open>new\<close> appends, and a field assignment replaces the
  object at its index.
\<close>

type_synonym ref = nat

subsection \<open>Messages and the port\<close>

text \<open>
  Modelled from the spec: the module \<open>cache-proto\<close> with the type \<open>Message\<close> is not
  among the sources. The spec gives the wire shape \<open>{ type, key, value? }\<close> with the
  types \<open>fetch\<close>, \<open>entry\<close> and \<open>expiring\<close>; a message of any other type is one whose
  \<open>type\<close> field holds another string. An absent \<open>value\<close> is \<open>None\<close>.
\<close>

record 'c Message =
  type :: string
  key :: string
  "value" :: "'c option"

text \<open>The three messages of the spec's vocabulary, in that shape.\<close>

abbreviation Fetch :: "string \<Rightarrow> 'c Message" where
  "Fetch k \<equiv> \<lparr>type = ''fetch'', key = k, value = None\<rparr>"

abbreviation Entry :: "string \<Rightarrow> 'c \<Rightarrow> 'c Message" where
  "Entry k v \<equiv> \<lparr>type = ''entry'', key = k, value = Some v\<rparr>"

abbreviation Expiring :: "string \<Rightarrow> 'c Message" where
  "Expiring k \<equiv> \<lparr>type = ''expiring'', key = k, value = None\<rparr>"

text \<open>
  Modelled from the spec: \<open>browser.runtime.Port\<close> belongs to the hosting environment.
  The spec's transport is a named channel with \<open>send(message)\<close>; the port is its name
  and the messages handed to \<open>postMessage\<close> so far, oldest first.
\<close>

record 'c Port =
  port_name :: string
  posted :: "'c Message list"

definition postMessage :: "'c Port \<Rightarrow> 'c Message \<Rightarrow> 'c Port" where
  "postMessage p m = p\<lparr>posted := posted p @ [m]\<rparr>"

text \<open>\<open>browser.runtime.connect(undefined, {name})\<close>: a new port of that name.\<close>

definition connect :: "string \<Rightarrow> 'c Port" where
  "connect n = \<lparr>port_name = n, posted = []\<rparr>"

subsection \<open>Cache entries and the cache object\<close>

text \<open>The type \<open>CacheEntry\<close>; \<open>undefined\<close> in \<open>value\<close> is \<open>None\<close>.\<close>

record 'c CacheEntry =
  key :: string
  "value" :: "'c option"
  requested :: bool

text \<open>
  What the two listeners write to the console: the cache's name, and for an unknown
  message the text that \<open>JSON.stringify\<close> made of it.
\<close>

datatype console_line =
  Lost_connection string
| Received_unknown_message string string

text \<open>The exception a listener can end with.\<close>

datatype error = TypeError

text \<open>
  The class \<open>Cache\<close>. \<open>local_cache\<close> is the JavaScript \<open>Map\<close> from keys to entry
  objects, in insertion order: \<open>map_of\<close> is its \<open>get\<close> and \<open>AList.update\<close> its \<open>set\<close>.
  \<open>store\<close> holds the entry objects this cache has created, \<open>console\<close> the lines it has
  logged.
\<close>

record 'c Cache =
  local_cache :: "(string \<times> ref) list"
  name :: string
  service :: "'c Port"
  store :: "'c CacheEntry list"
  console :: "console_line list"

text \<open>The constructor, without the listeners it registers; they follow.\<close>

definition new_Cache :: "string \<Rightarrow> 'c Port \<Rightarrow> 'c Cache" where
  "new_Cache n conn =
     \<lparr>local_cache = [], name = n, service = conn, store = [], console = []\<rparr>"

text \<open>The \<open>onDisconnect\<close> listener.\<close>

definition onDisconnect :: "'c Cache \<Rightarrow> 'c Cache" where
  "onDisconnect c = c\<lparr>console := console c @ [Lost_connection (name c)]\<rparr>"

text \<open>
  The \<open>onMessage\<close> listener: the \<open>switch\<close> on \<open>m.type\<close>, where \<open>'fetch'\<close> shares the
  \<open>default\<close> branch. That branch builds its warning with \<open>JSON.stringify(m)\<close> before
  it calls \<open>console.warn\<close>. \<open>JSON.stringify\<close> belongs to the language and is a
  parameter here: it returns the text, or \<open>None\<close> where it throws a \<open>TypeError\<close> (a
  \<open>BigInt\<close> or a cyclic object in the message). The exception is not caught, so the
  listener ends with it and nothing is logged.
\<close>

definition onMessage ::
  "('c Message \<Rightarrow> string option) \<Rightarrow> 'c Cache \<Rightarrow> 'c Message \<Rightarrow> error + 'c Cache" where
  "onMessage stringify c m =
     (if type m = ''entry'' then
        (case map_of (local_cache c) (Message.key m) of
           Some ent \<Rightarrow>
             Inr (c\<lparr>store := (store c)[ent := (store c ! ent)\<lparr>value := Message.value m\<rparr>]\<rparr>)
         | None \<Rightarrow> Inr c)
      else if type m = ''expiring'' then
        (case map_of (local_cache c) (Message.key m) of
           Some ent \<Rightarrow> Inr (c\<lparr>store := (store c)[ent := (store c ! ent)\<lparr>value := None\<rparr>]\<rparr>)
         | None \<Rightarrow> Inr c)
      else
        (case stringify m of
           None \<Rightarrow> Inl TypeError
         | Some text \<Rightarrow>
             Inr (c\<lparr>console := console c @ [Received_unknown_message (name c) text]\<rparr>)))"

text \<open>\<open>_send\<close>\<close>

definition Cache_send :: "'c Cache \<Rightarrow> 'c Message \<Rightarrow> 'c Cache" where
  "Cache_send c m = c\<lparr>service := postMessage (service c) m\<rparr>"

text \<open>\<open>_cached\<close>: the entry of a key, created when the map has none.\<close>

definition Cache_cached :: "'c Cache \<Rightarrow> string \<Rightarrow> ref \<times> 'c Cache" where
  "Cache_cached c k =
     (case map_of (local_cache c) k of
        Some ent \<Rightarrow> (ent, c)
      | None \<Rightarrow>
          (let ent = length (store c);
               c1 = c\<lparr>store := store c @ [\<lparr>key = k, value = None, requested = False\<rparr>]\<rparr>
           in (ent, c1\<lparr>local_cache := AList.update k ent (local_cache c1)\<rparr>)))"

text \<open>\<open>get\<close>\<close>

definition Cache_get :: "'c Cache \<Rightarrow> string \<Rightarrow> ref \<times> 'c Cache" where
  "Cache_get c k =
     (let (ent, c1) = Cache_cached c k in
      if \<not> requested (store c1 ! ent) then
        (let c2 = Cache_send c1 \<lparr>type = ''fetch'', Message.key = k, Message.value = None\<rparr>
         in (ent, c2\<lparr>store := (store c2)[ent := (store c2 ! ent)\<lparr>requested := True\<rparr>]\<rparr>))
      else (ent, c1))"

text \<open>\<open>set\<close>\<close>

definition Cache_set :: "'c Cache \<Rightarrow> string \<Rightarrow> 'c \<Rightarrow> ref \<times> 'c Cache" where
  "Cache_set c k v =
     (let (ent, c1) = Cache_cached c k;
          c2 = c1\<lparr>store := (store c1)[ent := (store c1 ! ent)\<lparr>value := Some v\<rparr>]\<rparr>
      in (ent, Cache_send c2 \<lparr>type = ''entry'', Message.key = k, Message.value = Some v\<rparr>))"

subsection \<open>The registry of open caches\<close>

text \<open>
  The global \<open>CACHES\<close> maps a name to a cache object; the cache objects live in \<open>heap\<close>
  and are named by their index.
\<close>

record 'c World =
  CACHES :: "(string \<times> ref) list"
  heap :: "'c Cache list"

text \<open>\<open>Cache.open\<close>\<close>

definition Cache_open :: "'c World \<Rightarrow> string \<Rightarrow> ref \<times> 'c World" where
  "Cache_open w n =
     (case map_of (CACHES w) n of
        Some cache \<Rightarrow> (cache, w)
      | None \<Rightarrow>
          (let cache = length (heap w);
               w1 = w\<lparr>heap := heap w @ [new_Cache n (connect (''cache:'' @ n))]\<rparr>
           in (cache, w1\<lparr>CACHES := AList.update n cache (CACHES w1)\<rparr>)))"

subsection \<open>Operations on one cache, and their sequences\<close>

text \<open>
  What can happen to a cache object: a caller's \<open>get\<close> or \<open>set\<close>, a message from the
  service, a disconnect. \<open>step\<close> keeps the state the operation leaves and drops the
  reference it returns; \<open>run\<close> applies a sequence of operations from left to right.
  \<open>received\<close> is the state after the \<open>onMessage\<close> listener: where the listener throws
  it has written nothing yet, so the state it leaves is the one it found. \<open>js\<close> is
  \<open>JSON.stringify\<close>.
\<close>

datatype 'c Op = Get string | Set string 'c | Receive "'c Message" | Disconnect

definition received ::
  "('c Message \<Rightarrow> string option) \<Rightarrow> 'c Cache \<Rightarrow> 'c Message \<Rightarrow> 'c Cache" where
  "received js c m = (case onMessage js c m of Inr c' \<Rightarrow> c' | Inl e \<Rightarrow> c)"

fun step :: "('c Message \<Rightarrow> string option) \<Rightarrow> 'c Cache \<Rightarrow> 'c Op \<Rightarrow> 'c Cache" where
  "step js c (Get k) = snd (Cache_get c k)"
| "step js c (Set k v) = snd (Cache_set c k v)"
| "step js c (Receive m) = received js c m"
| "step js c Disconnect = onDisconnect c"

fun run :: "('c Message \<Rightarrow> string option) \<Rightarrow> 'c Cache \<Rightarrow> 'c Op list \<Rightarrow> 'c Cache" where
  "run js c [] = c"
| "run js c (x # xs) = run js (step js c x) xs"

text \<open>
  In JavaScript a reference held by the map always points to a live object, and the
  object under a key is the one created for that key. In the model that is a property of
  the state: every reference of \<open>local_cache\<close> is an index of the store, the entry
  there carries the key it is bound to, and no key occurs twice in the map.
\<close>

definition wf :: "'c Cache \<Rightarrow> bool" where
  "wf c \<longleftrightarrow>
     distinct (map fst (local_cache c)) \<and>
     (\<forall>(k, ent) \<in> set (local_cache c). ent < length (store c) \<and> key (store c ! ent) = k)"

text \<open>Whether the entry of a key exists and has its \<open>requested\<close> flag set.\<close>

definition is_requested :: "'c Cache \<Rightarrow> string \<Rightarrow> bool" where
  "is_requested c k =
     (case map_of (local_cache c) k of Some ent \<Rightarrow> requested (store c ! ent) | None \<Rightarrow> False)"

text \<open>How many \<open>fetch\<close> messages for a key the cache has posted so far.\<close>

definition fetches :: "'c Cache \<Rightarrow> string \<Rightarrow> nat" where
  "fetches c k =
     length (filter (\<lambda>m. type m = ''fetch'' \<and> Message.key m = k) (posted (service c)))"

subsection \<open>Operations on the registry\<close>

text \<open>
  What can happen to the module's state: a call of \<open>Cache.open\<close>, or an operation on
  the cache object behind a reference. A reference that names no cache object changes
  nothing.
\<close>

datatype 'c WOp = Open string | On ref "'c Op"

fun wstep :: "('c Message \<Rightarrow> string option) \<Rightarrow> 'c World \<Rightarrow> 'c WOp \<Rightarrow> 'c World" where
  "wstep js w (Open n) = snd (Cache_open w n)"
| "wstep js w (On r x) = w\<lparr>heap := (heap w)[r := step js (heap w ! r) x]\<rparr>"

fun wrun :: "('c Message \<Rightarrow> string option) \<Rightarrow> 'c World \<Rightarrow> 'c WOp list \<Rightarrow> 'c World" where
  "wrun js w [] = w"
| "wrun js w (x # xs) = wrun js (wstep js w x) xs"

subsection \<open>Example states\<close>

text \<open>
  \<open>JSON.stringify\<close> on messages whose values are strings: it always returns. The text
  is abridged to the fields in order, without quotation marks.
\<close>

definition json_text :: "string \<Rightarrow> string \<Rightarrow> string option \<Rightarrow> string" where
  "json_text t k v =
     ''{type:'' @ t @ '',key:'' @ k @ (case v of None \<Rightarrow> [] | Some s \<Rightarrow> '',value:'' @ s) @ ''}''"

definition stringify_string :: "string Message \<Rightarrow> string option" where
  "stringify_string m = Some (json_text (type m) (Message.key m) (Message.value m))"

text \<open>
  Values that are a string or a \<open>BigInt\<close>, and \<open>JSON.stringify\<close> on messages with such
  values: on a \<open>BigInt\<close> it throws a \<open>TypeError\<close>.
\<close>

datatype js_value = JString string | JBigInt int

definition stringify_js_value :: "js_value Message \<Rightarrow> string option" where
  "stringify_js_value m =
     (case Message.value m of
        None \<Rightarrow> Some (json_text (type m) (Message.key m) None)
      | Some (JString s) \<Rightarrow> Some (json_text (type m) (Message.key m) (Some s))
      | Some (JBigInt n) \<Rightarrow> None)"

text \<open>The cache \<open>settings\<close> of the spec's scenarios, as \<open>Cache.open\<close> creates it.\<close>

definition settings :: "string Cache" where
  "settings = new_Cache ''settings'' (connect ''cache:settings'')"

text \<open>The same cache after \<open>get("theme")\<close>.\<close>

definition settings_theme :: "string Cache" where
  "settings_theme = snd (Cache_get settings ''theme'')"

text \<open>Then after \<open>set("theme", "light")\<close>.\<close>

definition settings_light :: "string Cache" where
  "settings_light = snd (Cache_set settings_theme ''theme'' ''light'')"

text \<open>The new cache after \<open>set("theme", "light")\<close> alone.\<close>

definition settings_set :: "string Cache" where
  "settings_set = snd (Cache_set settings ''theme'' ''light'')"

text \<open>The registry when the module is loaded: no cache is open.\<close>

definition no_caches :: "string World" where
  "no_caches = \<lparr>CACHES = [], heap = []\<rparr>"

section \<open>Properties\<close>

subsection \<open>Auxiliary facts\<close>

text \<open>
  \<open>_cached\<close> by cases: a key of the map yields its entry and no change; a new key
  yields a new object at the end of the store and a new binding at the end of the map.
\<close>

lemma update_absent: "map_of al k = None \<Longrightarrow> AList.update k v al = al @ [(k, v)]"
  by (induction al) (auto split: if_splits)

lemma cached_hit: "map_of (local_cache c) k = Some ent \<Longrightarrow> Cache_cached c k = (ent, c)"
  by (simp add: Cache_cached_def)

lemma cached_miss:
  "map_of (local_cache c) k = None \<Longrightarrow>
   Cache_cached c k =
     (length (store c),
      c\<lparr>store := store c @ [\<lparr>key = k, value = None, requested = False\<rparr>],
        local_cache := local_cache c @ [(k, length (store c))]\<rparr>)"
  by (simp add: Cache_cached_def Let_def update_absent)

text \<open>Well-formedness, and that every operation preserves it.\<close>

lemma wf_iff:
  "wf c \<longleftrightarrow>
     distinct (map fst (local_cache c)) \<and>
     (\<forall>k ent. (k, ent) \<in> set (local_cache c) \<longrightarrow>
        ent < length (store c) \<and> key (store c ! ent) = k)"
  by (auto simp: wf_def)

lemma wf_lookup:
  "wf c \<Longrightarrow> map_of (local_cache c) k = Some ent \<Longrightarrow>
   ent < length (store c) \<and> key (store c ! ent) = k"
  by (auto simp: wf_iff dest: map_of_SomeD)

lemma wf_cached: "wf c \<Longrightarrow> wf (snd (Cache_cached c k))"
proof (cases "map_of (local_cache c) k")
  case None
  assume "wf c"
  moreover from None have "k \<notin> fst ` set (local_cache c)"
    by (simp add: map_of_eq_None_iff)
  ultimately show ?thesis
    by (fastforce simp: cached_miss [OF None] wf_iff nth_append less_Suc_eq)
next
  case (Some ent)
  assume "wf c"
  then show ?thesis by (simp add: cached_hit [OF Some])
qed

lemma cached_bound:
  assumes "wf c" and "Cache_cached c k = (ent, c1)"
  shows "map_of (local_cache c1) k = Some ent \<and> ent < length (store c1) \<and>
         key (store c1 ! ent) = k"
proof (cases "map_of (local_cache c) k")
  case None
  with assms(2) show ?thesis
    by (auto simp: cached_miss map_add_def)
next
  case (Some r)
  with assms show ?thesis
    by (auto simp: cached_hit dest: wf_lookup)
qed

lemma wf_store_upd:
  assumes "wf c" and "key e = key (store c ! r)"
  shows "wf (c\<lparr>store := (store c)[r := e]\<rparr>)"
  unfolding wf_iff
proof (intro conjI allI impI)
  show "distinct (map fst (local_cache (c\<lparr>store := (store c)[r := e]\<rparr>)))"
    using assms(1) by (simp add: wf_iff)
next
  fix k ent
  assume "(k, ent) \<in> set (local_cache (c\<lparr>store := (store c)[r := e]\<rparr>))"
  then have "ent < length (store c) \<and> key (store c ! ent) = k"
    using assms(1) by (simp add: wf_iff)
  then show "ent < length (store (c\<lparr>store := (store c)[r := e]\<rparr>))"
    and "key (store (c\<lparr>store := (store c)[r := e]\<rparr>) ! ent) = k"
    using assms(2) by (cases "r = ent"; simp)+
qed

lemma wf_service [simp]: "wf (c\<lparr>service := p\<rparr>) = wf c"
  by (simp add: wf_def)

lemma wf_console [simp]: "wf (c\<lparr>console := l\<rparr>) = wf c"
  by (simp add: wf_def)

lemma wf_send [simp]: "wf (Cache_send c m) = wf c"
  by (simp add: Cache_send_def)

lemma store_send [simp]: "store (Cache_send c m) = store c"
  by (simp add: Cache_send_def)

lemma local_cache_send [simp]: "local_cache (Cache_send c m) = local_cache c"
  by (simp add: Cache_send_def)

lemma wf_get: "wf c \<Longrightarrow> wf (snd (Cache_get c k))"
  using wf_cached [of c k] wf_store_upd [of "Cache_send (snd (Cache_cached c k)) m" for m]
  by (simp add: Cache_get_def Let_def split_beta)

lemma wf_set: "wf c \<Longrightarrow> wf (snd (Cache_set c k v))"
  using wf_cached [of c k] wf_store_upd [of "snd (Cache_cached c k)"]
  by (simp add: Cache_set_def Let_def split_beta)

lemma wf_received: "wf c \<Longrightarrow> wf (received js c m)"
  using wf_store_upd [of c]
  by (simp add: received_def onMessage_def split: option.splits)

lemma wf_onDisconnect: "wf c \<Longrightarrow> wf (onDisconnect c)"
  by (simp add: onDisconnect_def)

lemma wf_step: "wf c \<Longrightarrow> wf (step js c x)"
  by (cases x) (simp_all add: wf_get wf_set wf_received wf_onDisconnect)

lemma wf_run: "wf c \<Longrightarrow> wf (run js c xs)"
  by (induction xs arbitrary: c) (simp_all add: wf_step)

lemma wf_new: "wf (new_Cache n p)"
  by (simp add: wf_def new_Cache_def)

text \<open>Every state a cache can reach from its construction is well-formed.\<close>

lemma wf_reachable: "wf (run js (new_Cache n conn) xs)"
  by (rule wf_run [OF wf_new])

lemma fst_get [simp]: "fst (Cache_get c k) = fst (Cache_cached c k)"
  by (simp add: Cache_get_def Let_def split_beta)

lemma fst_set [simp]: "fst (Cache_set c k v) = fst (Cache_cached c k)"
  by (simp add: Cache_set_def Let_def split_beta)

lemma local_cache_get [simp]:
  "local_cache (snd (Cache_get c k)) = local_cache (snd (Cache_cached c k))"
  by (simp add: Cache_get_def Let_def split_beta)

lemma local_cache_set [simp]:
  "local_cache (snd (Cache_set c k v)) = local_cache (snd (Cache_cached c k))"
  by (simp add: Cache_set_def Let_def split_beta)

lemma local_cache_received [simp]: "local_cache (received js c m) = local_cache c"
  by (simp add: received_def onMessage_def split: option.splits)

lemma local_cache_onDisconnect [simp]: "local_cache (onDisconnect c) = local_cache c"
  by (simp add: onDisconnect_def)

text \<open>No operation touches a binding of the map.\<close>

lemma binding_cached:
  "map_of (local_cache c) k = Some ent \<Longrightarrow>
   map_of (local_cache (snd (Cache_cached c k'))) k = Some ent"
  by (cases "map_of (local_cache c) k'") (auto simp: cached_miss cached_hit map_add_def)

lemma binding_step:
  "map_of (local_cache c) k = Some ent \<Longrightarrow> map_of (local_cache (step js c x)) k = Some ent"
  by (cases x) (simp_all add: binding_cached)

lemma binding_run:
  "map_of (local_cache c) k = Some ent \<Longrightarrow> map_of (local_cache (run js c xs)) k = Some ent"
  by (induction xs arbitrary: c) (simp_all add: binding_step)

text \<open>The definitions that unfold to evaluate an example.\<close>

lemmas eval_defs =
  settings_def settings_theme_def new_Cache_def connect_def Cache_get_def Cache_set_def
  Cache_cached_def Cache_send_def postMessage_def received_def onMessage_def onDisconnect_def Let_def

text \<open>\<open>get\<close> and \<open>set\<close> by cases, as state transformers.\<close>

lemma get_miss:
  "map_of (local_cache c) k = None \<Longrightarrow>
   Cache_get c k =
     (length (store c),
      c\<lparr>local_cache := local_cache c @ [(k, length (store c))],
        service := postMessage (service c) (Fetch k),
        store := store c @ [\<lparr>key = k, value = None, requested = True\<rparr>]\<rparr>)"
  by (simp add: Cache_get_def cached_miss Cache_send_def)

lemma get_hit_unrequested:
  "map_of (local_cache c) k = Some ent \<Longrightarrow> \<not> requested (store c ! ent) \<Longrightarrow>
   Cache_get c k =
     (ent, c\<lparr>service := postMessage (service c) (Fetch k),
             store := (store c)[ent := (store c ! ent)\<lparr>requested := True\<rparr>]\<rparr>)"
  by (simp add: Cache_get_def cached_hit Cache_send_def)

lemma get_hit_requested:
  "map_of (local_cache c) k = Some ent \<Longrightarrow> requested (store c ! ent) \<Longrightarrow>
   Cache_get c k = (ent, c)"
  by (simp add: Cache_get_def cached_hit)

lemma set_miss:
  "map_of (local_cache c) k = None \<Longrightarrow>
   Cache_set c k v =
     (length (store c),
      c\<lparr>local_cache := local_cache c @ [(k, length (store c))],
        service := postMessage (service c) (Entry k v),
        store := store c @ [\<lparr>key = k, value = Some v, requested = False\<rparr>]\<rparr>)"
  by (simp add: Cache_set_def cached_miss Cache_send_def)

lemma set_hit:
  "map_of (local_cache c) k = Some ent \<Longrightarrow>
   Cache_set c k v =
     (ent, c\<lparr>service := postMessage (service c) (Entry k v),
             store := (store c)[ent := (store c ! ent)\<lparr>value := Some v\<rparr>]\<rparr>)"
  by (simp add: Cache_set_def cached_hit Cache_send_def)

lemma get_bound:
  assumes "wf c" and "Cache_get c k = (ent, c1)"
  shows "map_of (local_cache c1) k = Some ent \<and> ent < length (store c1) \<and>
         key (store c1 ! ent) = k \<and> requested (store c1 ! ent)"
proof (cases "map_of (local_cache c) k")
  case None
  with assms(2) show ?thesis
    by (auto simp: get_miss map_add_def)
next
  case (Some r)
  with assms wf_lookup [OF assms(1) Some] show ?thesis
    by (cases "requested (store c ! r)") (auto simp: get_hit_requested get_hit_unrequested)
qed

lemma set_bound:
  assumes "wf c" and "Cache_set c k v = (ent, c1)"
  shows "map_of (local_cache c1) k = Some ent \<and> ent < length (store c1) \<and>
         key (store c1 ! ent) = k \<and> value (store c1 ! ent) = Some v"
proof (cases "map_of (local_cache c) k")
  case None
  with assms(2) show ?thesis
    by (auto simp: set_miss map_add_def)
next
  case (Some r)
  with assms wf_lookup [OF assms(1) Some] show ?thesis
    by (auto simp: set_hit)
qed

lemma get_again:
  assumes "wf c" and "Cache_get c k = (ent, c1)"
  shows "Cache_get c1 k = (ent, c1)"
  using get_bound [OF assms] by (simp add: get_hit_requested)

lemma run_replicate_get:
  assumes "wf c" and "Cache_get c k = (ent, c1)"
  shows "run js c1 (replicate n (Get k)) = c1"
  using get_again [OF assms] by (induction n) simp_all

lemma prior_get:
  assumes "wf c0"
  shows "map_of (local_cache (run js (snd (Cache_get c0 k)) ops)) k = Some (fst (Cache_get c0 k))"
proof -
  obtain ent c1 where g: "Cache_get c0 k = (ent, c1)"
    by (cases "Cache_get c0 k")
  from get_bound [OF assms g] show ?thesis
    by (simp add: g binding_run)
qed

lemma get_after_run:
  assumes "wf c" and "map_of (local_cache c) k = Some ent"
  shows "fst (Cache_get (run js c ops) k) = ent"
  using binding_run [OF assms(2), of js ops] by (simp add: cached_hit)

lemma posted_postMessage [simp]: "posted (postMessage p m) = posted p @ [m]"
  by (simp add: postMessage_def)

text \<open>
  The \<open>requested\<close> flag of a key is set by a \<open>get\<close> of that key and by nothing else,
  and only such a \<open>get\<close> on a key not yet requested posts a \<open>fetch\<close> for it.
\<close>

lemma requested_value_upd [simp]:
  "requested (xs[i := (xs ! i)\<lparr>value := v\<rparr>] ! j) = requested (xs ! j)"
  by (cases "i < length xs") (simp_all add: nth_list_update list_update_beyond)

lemma wf_distinct_refs:
  assumes "wf c" and "map_of (local_cache c) k = Some r" and "map_of (local_cache c) k' = Some r'"
    and "k \<noteq> k'"
  shows "r \<noteq> r'"
  using wf_lookup [OF assms(1,2)] wf_lookup [OF assms(1,3)] assms(4) by auto

lemma is_requested_get_other:
  assumes "wf c" and "k' \<noteq> k"
  shows "is_requested (snd (Cache_get c k')) k = is_requested c k"
proof (cases "map_of (local_cache c) k'")
  case None
  show ?thesis
  proof (cases "map_of (local_cache c) k")
    case None
    with \<open>map_of (local_cache c) k' = None\<close> assms(2) show ?thesis
      by (simp add: get_miss is_requested_def map_add_def)
  next
    case (Some r)
    with wf_lookup [OF assms(1) Some] \<open>map_of (local_cache c) k' = None\<close> assms(2)
    show ?thesis
      by (simp add: get_miss is_requested_def map_add_def nth_append)
  qed
next
  case (Some r')
  show ?thesis
  proof (cases "requested (store c ! r')")
    case True
    with Some show ?thesis by (simp add: get_hit_requested)
  next
    case False
    show ?thesis
    proof (cases "map_of (local_cache c) k")
      case None
      with Some False show ?thesis
        by (simp add: get_hit_unrequested is_requested_def)
    next
      case (Some r)
      with wf_distinct_refs [OF assms(1) Some \<open>map_of (local_cache c) k' = Some r'\<close>]
        assms(2) False \<open>map_of (local_cache c) k' = Some r'\<close>
      show ?thesis
        by (simp add: get_hit_unrequested is_requested_def)
    qed
  qed
qed

lemma is_requested_get_same:
  assumes "wf c"
  shows "is_requested (snd (Cache_get c k)) k"
proof -
  obtain ent c1 where g: "Cache_get c k = (ent, c1)"
    by (cases "Cache_get c k")
  from get_bound [OF assms g] show ?thesis
    by (simp add: g is_requested_def)
qed

lemma is_requested_set:
  assumes "wf c"
  shows "is_requested (snd (Cache_set c k' v)) k = is_requested c k"
proof (cases "map_of (local_cache c) k'")
  case None
  show ?thesis
  proof (cases "map_of (local_cache c) k")
    case None
    with \<open>map_of (local_cache c) k' = None\<close> show ?thesis
      by (simp add: set_miss is_requested_def map_add_def)
  next
    case (Some r)
    with wf_lookup [OF assms(1) Some] \<open>map_of (local_cache c) k' = None\<close>
    show ?thesis
      by (auto simp: set_miss is_requested_def map_add_def nth_append)
  qed
next
  case (Some r')
  show ?thesis
  proof (cases "map_of (local_cache c) k")
    case None
    with Some show ?thesis
      by (simp add: set_hit is_requested_def)
  next
    case (Some r)
    with wf_lookup [OF assms(1) Some] \<open>map_of (local_cache c) k' = Some r'\<close>
    show ?thesis
      by (simp add: set_hit is_requested_def nth_list_update)
  qed
qed

lemma is_requested_received:
  assumes "wf c"
  shows "is_requested (received js c m) k = is_requested c k"
proof (cases "map_of (local_cache c) k")
  case None
  then show ?thesis by (simp add: is_requested_def)
next
  case (Some r)
  with wf_lookup [OF assms(1) Some] show ?thesis
    by (simp add: is_requested_def received_def onMessage_def nth_list_update split: option.splits)
qed

lemma is_requested_step:
  assumes "wf c"
  shows "is_requested (step js c x) k = (is_requested c k \<or> x = Get k)"
proof (cases x)
  case (Get k')
  then show ?thesis
    using is_requested_get_other [OF assms, of k' k] is_requested_get_same [OF assms, of k]
    by (cases "k' = k") simp_all
next
  case (Set k' v)
  then show ?thesis by (simp add: is_requested_set [OF assms])
next
  case (Receive m)
  then show ?thesis by (simp add: is_requested_received [OF assms])
next
  case Disconnect
  then show ?thesis by (simp add: is_requested_def onDisconnect_def split: option.splits)
qed

lemma fetches_get:
  "fetches (snd (Cache_get c k')) k =
     fetches c k + (if k' = k \<and> \<not> is_requested c k then 1 else 0)"
proof (cases "map_of (local_cache c) k'")
  case None
  then show ?thesis
    by (auto simp: get_miss fetches_def is_requested_def)
next
  case (Some r')
  then show ?thesis
    by (cases "requested (store c ! r')")
       (auto simp: get_hit_requested get_hit_unrequested fetches_def is_requested_def)
qed

lemma fetches_set: "fetches (snd (Cache_set c k' v)) k = fetches c k"
  by (cases "map_of (local_cache c) k'") (auto simp: set_miss set_hit fetches_def)

lemma fetches_step:
  "fetches (step js c x) k = fetches c k + (if x = Get k \<and> \<not> is_requested c k then 1 else 0)"
proof (cases x)
  case (Get k')
  then show ?thesis by (simp add: fetches_get)
next
  case (Set k' v)
  then show ?thesis by (simp add: fetches_set)
next
  case (Receive m)
  then show ?thesis by (simp add: fetches_def received_def onMessage_def split: option.splits)
next
  case Disconnect
  then show ?thesis by (simp add: fetches_def onDisconnect_def)
qed

lemma new_Cache_not_requested: "\<not> is_requested (new_Cache n conn) k"
  by (simp add: is_requested_def new_Cache_def)

lemma is_requested_run:
  "wf c \<Longrightarrow> is_requested (run js c ops) k = (is_requested c k \<or> Get k \<in> set ops)"
  by (induction ops arbitrary: c) (auto simp: is_requested_step wf_step)

lemma fetches_run:
  "wf c \<Longrightarrow>
   fetches (run js c ops) k = fetches c k + (if \<not> is_requested c k \<and> Get k \<in> set ops then 1 else 0)"
proof (induction ops arbitrary: c)
  case Nil
  then show ?case by simp
next
  case (Cons x xs)
  from Cons.IH [OF wf_step [OF Cons.prems, of js x]] show ?case
    by (simp add: fetches_step is_requested_step [OF Cons.prems])
qed

text \<open>\<open>Cache.open\<close> by cases, and the persistence of a registration.\<close>

lemma open_hit: "map_of (CACHES w) n = Some cache \<Longrightarrow> Cache_open w n = (cache, w)"
  by (simp add: Cache_open_def)

lemma open_miss:
  "map_of (CACHES w) n = None \<Longrightarrow>
   Cache_open w n =
     (length (heap w),
      \<lparr>CACHES = CACHES w @ [(n, length (heap w))],
       heap = heap w @ [new_Cache n (connect (''cache:'' @ n))]\<rparr>)"
  by (simp add: Cache_open_def Let_def update_absent)

lemma open_registers: "map_of (CACHES (snd (Cache_open w n))) n = Some (fst (Cache_open w n))"
  by (cases "map_of (CACHES w) n") (simp_all add: open_hit open_miss map_add_def)

lemma registered_open:
  "map_of (CACHES w) n = Some cache \<Longrightarrow> map_of (CACHES (snd (Cache_open w n'))) n = Some cache"
  by (cases "map_of (CACHES w) n'") (auto simp: open_hit open_miss map_add_def)

lemma registered_wstep:
  "map_of (CACHES w) n = Some cache \<Longrightarrow> map_of (CACHES (wstep js w x)) n = Some cache"
  by (cases x) (simp_all add: registered_open)

lemma registered_wrun:
  "map_of (CACHES w) n = Some cache \<Longrightarrow> map_of (CACHES (wrun js w xs)) n = Some cache"
  by (induction xs arbitrary: w) (simp_all add: registered_wstep)

text \<open>The example states, computed.\<close>

lemma wf_settings: "wf settings"
  by (simp add: settings_def wf_new)

lemma wf_settings_theme: "wf settings_theme"
  by (simp add: settings_theme_def wf_get wf_settings)

lemma wf_settings_light: "wf settings_light"
  by (simp add: settings_light_def wf_set wf_settings_theme)

lemma settings_theme_eq:
  "settings_theme =
     \<lparr>local_cache = [(''theme'', 0)], name = ''settings'',
      service = \<lparr>port_name = ''cache:settings'', posted = [Fetch ''theme'']\<rparr>,
      store = [\<lparr>key = ''theme'', value = None, requested = True\<rparr>], console = []\<rparr>"
  by (simp add: eval_defs)

lemma settings_light_eq:
  "settings_light =
     \<lparr>local_cache = [(''theme'', 0)], name = ''settings'',
      service = \<lparr>port_name = ''cache:settings'',
                 posted = [Fetch ''theme'', Entry ''theme'' ''light'']\<rparr>,
      store = [\<lparr>key = ''theme'', value = Some ''light'', requested = True\<rparr>], console = []\<rparr>"
  by (simp add: settings_light_def settings_theme_eq Cache_set_def Cache_cached_def
      Cache_send_def postMessage_def)

text \<open>
  A message of another type than \<open>entry\<close> and \<open>expiring\<close>: the listener logs the text
  of the message where \<open>JSON.stringify\<close> returns one and throws where it throws; either
  way the map, the store and the port are as before.
\<close>

lemma unknown_message_logged:
  "type m \<noteq> ''entry'' \<Longrightarrow> type m \<noteq> ''expiring'' \<Longrightarrow> js m = Some text \<Longrightarrow>
   onMessage js c m = Inr (c\<lparr>console := console c @ [Received_unknown_message (name c) text]\<rparr>)"
  by (simp add: onMessage_def)

lemma unknown_message_throws:
  "type m \<noteq> ''entry'' \<Longrightarrow> type m \<noteq> ''expiring'' \<Longrightarrow> js m = None \<Longrightarrow>
   onMessage js c m = Inl TypeError"
  by (simp add: onMessage_def)

lemma unknown_message_state:
  "type m \<noteq> ''entry'' \<Longrightarrow> type m \<noteq> ''expiring'' \<Longrightarrow>
   local_cache (received js c m) = local_cache c \<and>
   store (received js c m) = store c \<and>
   service (received js c m) = service c"
  by (simp add: received_def onMessage_def split: option.splits)

subsection \<open>The claims\<close>

text \<open>
  C1. Once a key has an entry, no later operation (get, set, an inbound message of any
  type, a disconnect) removes the key or binds it to another object: after any sequence
  of operations the key is bound to the same reference, the object is still in the store,
  and it still carries that key.
\<close>

theorem record_never_removed_or_replaced:
  assumes "wf c" and "map_of (local_cache c) k = Some ent"
  shows "map_of (local_cache (run js c ops)) k = Some ent \<and>
         ent < length (store (run js c ops)) \<and>
         key (store (run js c ops) ! ent) = k"
  using wf_lookup [OF wf_run [OF assms(1), of js ops] binding_run [OF assms(2), of js ops]]
    binding_run [OF assms(2), of js ops]
  by simp

theorem record_never_removed_or_replaced_witness:
  "wf settings_theme \<and> map_of (local_cache settings_theme) ''theme'' = Some 0 \<and>
   map_of (local_cache (run stringify_string settings_theme
      [Receive (Expiring ''theme''), Set ''volume'' ''7'', Receive (Fetch ''theme''),
       Get ''volume'', Set ''theme'' ''light'', Disconnect])) ''theme'' = Some 0"
proof -
  have w: "wf settings_theme"
    by (simp add: wf_def eval_defs)
  have b: "map_of (local_cache settings_theme) ''theme'' = Some 0"
    by (simp add: eval_defs)
  from record_never_removed_or_replaced [OF w b, where js = stringify_string] w b
  show ?thesis by blast
qed

text \<open>
  C2. For a key whose entry is missing or not yet requested, any sequence of operations
  with at least one \<open>get\<close> of the key posts exactly one \<open>fetch\<close> message for it: the
  first \<open>get\<close> posts it and sets \<open>requested\<close>, and a \<open>get\<close> at any later time
  leaves the state, and so the port, as it is. The other operations of the sequence are
  arbitrary.
\<close>

theorem one_fetch_per_key:
  assumes "wf c" and "\<not> is_requested c k"
  shows "(Get k \<in> set ops \<longrightarrow> fetches (run js c ops) k = fetches c k + 1) \<and>
         posted (service (snd (Cache_get c k))) = posted (service c) @ [Fetch k] \<and>
         is_requested (snd (Cache_get c k)) k \<and>
         snd (Cache_get (run js (snd (Cache_get c k)) later) k) = run js (snd (Cache_get c k)) later"
proof -
  have first: "posted (service (snd (Cache_get c k))) = posted (service c) @ [Fetch k]"
    using assms(2)
    by (cases "map_of (local_cache c) k")
       (simp_all add: get_miss get_hit_unrequested is_requested_def)
  have flag: "is_requested (snd (Cache_get c k)) k"
    by (rule is_requested_get_same [OF assms(1)])
  let ?c' = "run js (snd (Cache_get c k)) later"
  have w: "wf ?c'"
    by (intro wf_run wf_get assms(1))
  have "is_requested ?c' k"
    using flag by (simp add: is_requested_run [OF wf_get [OF assms(1)]])
  then have rest: "snd (Cache_get ?c' k) = ?c'"
    by (cases "map_of (local_cache ?c') k") (simp_all add: is_requested_def get_hit_requested)
  from fetches_run [OF assms(1), of js ops k] assms(2) first flag rest show ?thesis
    by simp
qed

theorem one_fetch_per_key_witness:
  "wf settings \<and> \<not> is_requested settings ''volume'' \<and>
   Get ''volume'' \<in> set [Get ''volume'', Receive (Expiring ''volume''), Get ''volume''] \<and>
   fetches (run stringify_string settings [Get ''volume'', Receive (Expiring ''volume''), Get ''volume''])
     ''volume'' = 1 \<and>
   posted (service (snd (Cache_get settings ''volume''))) = [Fetch ''volume'']"
proof -
  have n: "\<not> is_requested settings ''volume''"
    by (simp add: is_requested_def settings_def new_Cache_def)
  have z: "fetches settings ''volume'' = 0" "posted (service settings) = []"
    by (simp_all add: fetches_def settings_def new_Cache_def connect_def)
  from one_fetch_per_key [OF wf_settings n,
      of "[Get ''volume'', Receive (Expiring ''volume''), Get ''volume'']" stringify_string]
    wf_settings n z
  show ?thesis by simp
qed

text \<open>
  C3. \<open>Cache.open\<close> registers the cache it returns; when the name was not registered
  it creates the cache object, connected to the port \<open>cache:name\<close>, and binds the name
  to it. A second call with the same name, at once or after any other operations,
  returns the same reference and changes nothing, so it creates no cache.
\<close>

theorem open_returns_the_registered_cache:
  assumes "Cache_open w n = (cache, w1)"
  shows "map_of (CACHES w1) n = Some cache \<and>
         (map_of (CACHES w) n = None \<longrightarrow>
            cache = length (heap w) \<and>
            w1 = \<lparr>CACHES = CACHES w @ [(n, cache)],
                  heap = heap w @ [new_Cache n (connect (''cache:'' @ n))]\<rparr>) \<and>
         Cache_open w1 n = (cache, w1) \<and>
         Cache_open (wrun js w1 ops) n = (cache, wrun js w1 ops)"
proof -
  have reg: "map_of (CACHES w1) n = Some cache"
    using open_registers [of w n] by (simp add: assms)
  have new: "cache = length (heap w) \<and>
      w1 = \<lparr>CACHES = CACHES w @ [(n, cache)],
            heap = heap w @ [new_Cache n (connect (''cache:'' @ n))]\<rparr>"
    if "map_of (CACHES w) n = None"
    using that assms by (auto simp: open_miss)
  from reg new open_hit [OF reg] open_hit [OF registered_wrun [OF reg, of js ops]]
  show ?thesis by blast
qed

theorem open_returns_the_registered_cache_witness:
  "Cache_open no_caches ''settings'' =
     (0, \<lparr>CACHES = [(''settings'', 0)], heap = [settings]\<rparr>) \<and>
   map_of (CACHES no_caches) ''settings'' = None \<and>
   Cache_open \<lparr>CACHES = [(''settings'', 0)], heap = [settings]\<rparr> ''settings'' =
     (0, \<lparr>CACHES = [(''settings'', 0)], heap = [settings]\<rparr>) \<and>
   fst (Cache_open
     (wrun stringify_string \<lparr>CACHES = [(''settings'', 0)], heap = [settings]\<rparr>
        [On 0 (Get ''theme''), Open ''sessions'', Open ''settings''])
     ''settings'') = 0"
proof -
  have o: "Cache_open no_caches ''settings'' =
     (0, \<lparr>CACHES = [(''settings'', 0)], heap = [settings]\<rparr>)"
    by (simp add: Cache_open_def no_caches_def settings_def)
  have n: "map_of (CACHES no_caches) ''settings'' = None"
    by (simp add: no_caches_def)
  from open_returns_the_registered_cache [OF o,
      of stringify_string "[On 0 (Get ''theme''), Open ''sessions'', Open ''settings'']"] o n
  show ?thesis by simp
qed

text \<open>
  C4. \<open>set\<close> returns the entry bound to the key, created when the key had none and
  otherwise the existing one updated in place; on return the entry's \<open>value\<close> is the
  value given, and exactly one message, \<open>entry\<close> with that key and value, has been
  posted. A \<open>get\<close> of the key right after returns the same entry with that value.
\<close>

theorem set_writes_value_and_sends_entry:
  assumes "wf c" and "Cache_set c k v = (ent, c1)"
  shows "map_of (local_cache c1) k = Some ent \<and>
         ent < length (store c1) \<and>
         (map_of (local_cache c) k = None \<longrightarrow>
            ent = length (store c) \<and>
            local_cache c1 = local_cache c @ [(k, ent)] \<and>
            store c1 = store c @ [\<lparr>key = k, value = Some v, requested = False\<rparr>]) \<and>
         (\<forall>r. map_of (local_cache c) k = Some r \<longrightarrow>
            ent = r \<and>
            local_cache c1 = local_cache c \<and>
            store c1 = (store c)[r := (store c ! r)\<lparr>value := Some v\<rparr>]) \<and>
         value (store c1 ! ent) = Some v \<and>
         posted (service c1) = posted (service c) @ [Entry k v] \<and>
         fst (Cache_get c1 k) = ent \<and>
         value (store (snd (Cache_get c1 k)) ! ent) = Some v"
proof -
  note b = set_bound [OF assms]
  have miss: "ent = length (store c) \<and>
        local_cache c1 = local_cache c @ [(k, ent)] \<and>
        store c1 = store c @ [\<lparr>key = k, value = Some v, requested = False\<rparr>]"
    if "map_of (local_cache c) k = None"
    using that assms(2) by (auto simp: set_miss)
  have hit: "\<forall>r. map_of (local_cache c) k = Some r \<longrightarrow>
        ent = r \<and> local_cache c1 = local_cache c \<and>
        store c1 = (store c)[r := (store c ! r)\<lparr>value := Some v\<rparr>]"
    using assms(2) by (auto simp: set_hit)
  have sent: "posted (service c1) = posted (service c) @ [Entry k v]"
    using assms(2) by (cases "map_of (local_cache c) k") (auto simp: set_miss set_hit)
  have g: "fst (Cache_get c1 k) = ent"
    using b by (simp add: cached_hit)
  have "value (store (snd (Cache_get c1 k)) ! ent) = Some v"
    using b by (cases "requested (store c1 ! ent)")
      (simp_all add: get_hit_requested get_hit_unrequested)
  with b miss hit sent g show ?thesis by blast
qed

theorem set_writes_value_and_sends_entry_witness:
  "wf settings_theme \<and>
   Cache_set settings_theme ''theme'' ''light'' = (0, settings_light) \<and>
   value (store settings_light ! 0) = Some ''light'' \<and>
   posted (service settings_light) = posted (service settings_theme) @ [Entry ''theme'' ''light''] \<and>
   fst (Cache_get settings_light ''theme'') = 0 \<and>
   value (store (snd (Cache_get settings_light ''theme'')) ! 0) = Some ''light''"
proof -
  have s: "Cache_set settings_theme ''theme'' ''light'' = (0, settings_light)"
    by (simp add: settings_light_eq)
       (simp add: settings_theme_eq Cache_set_def Cache_cached_def Cache_send_def postMessage_def)
  from set_writes_value_and_sends_entry [OF wf_settings_theme s] wf_settings_theme s
  show ?thesis by (simp del: fst_get)
qed

text \<open>
  C5. An inbound \<open>entry\<close> message for a key with a local entry writes the message's
  value into that entry and changes nothing else: the key stays bound to the same
  reference, the entry's \<open>key\<close> and \<open>requested\<close> are as before, and the reference is
  the one that any earlier \<open>get\<close> of the key returned and that a later one returns.
\<close>

theorem entry_overwrites_value_in_place:
  assumes "wf c" and "map_of (local_cache c) k = Some ent"
    and "type m = ''entry''" and "Message.key m = k"
  shows "onMessage js c m =
           Inr (c\<lparr>store := (store c)[ent := (store c ! ent)\<lparr>value := Message.value m\<rparr>]\<rparr>) \<and>
         map_of (local_cache (received js c m)) k = Some ent \<and>
         ent < length (store (received js c m)) \<and>
         value (store (received js c m) ! ent) = Message.value m \<and>
         key (store (received js c m) ! ent) = key (store c ! ent) \<and>
         requested (store (received js c m) ! ent) = requested (store c ! ent) \<and>
         (\<forall>c0 ops. wf c0 \<and> run js (snd (Cache_get c0 k)) ops = c \<longrightarrow> fst (Cache_get c0 k) = ent) \<and>
         fst (Cache_get (received js c m) k) = ent"
proof -
  have res: "onMessage js c m =
      Inr (c\<lparr>store := (store c)[ent := (store c ! ent)\<lparr>value := Message.value m\<rparr>]\<rparr>)"
    using assms(2-4) by (simp add: onMessage_def)
  then have eq: "received js c m =
      c\<lparr>store := (store c)[ent := (store c ! ent)\<lparr>value := Message.value m\<rparr>]\<rparr>"
    by (simp add: received_def)
  from wf_lookup [OF assms(1,2)] have lt: "ent < length (store c)" by simp
  have fields: "ent < length (store (received js c m)) \<and>
      value (store (received js c m) ! ent) = Message.value m \<and>
      key (store (received js c m) ! ent) = key (store c ! ent) \<and>
      requested (store (received js c m) ! ent) = requested (store c ! ent)"
    using lt by (simp add: eq)
  have bound: "map_of (local_cache (received js c m)) k = Some ent"
    using assms(2) by simp
  have prior: "\<forall>c0 ops. wf c0 \<and> run js (snd (Cache_get c0 k)) ops = c \<longrightarrow>
      fst (Cache_get c0 k) = ent"
  proof (intro allI impI)
    fix c0 :: "'a Cache" and ops
    assume "wf c0 \<and> run js (snd (Cache_get c0 k)) ops = c"
    with prior_get [of c0 js k ops] assms(2) show "fst (Cache_get c0 k) = ent"
      by (simp del: fst_get)
  qed
  have later: "fst (Cache_get (received js c m) k) = ent"
    using assms(2) by (simp add: cached_hit)
  from res bound fields prior later show ?thesis
    by blast
qed

theorem entry_overwrites_value_in_place_witness:
  "wf settings_theme \<and> map_of (local_cache settings_theme) ''theme'' = Some 0 \<and>
   type (Entry ''theme'' ''dark'') = ''entry'' \<and>
   Message.key (Entry ''theme'' ''dark'') = ''theme'' \<and>
   store (received stringify_string settings_theme (Entry ''theme'' ''dark'')) =
     [\<lparr>key = ''theme'', value = Some ''dark'', requested = True\<rparr>] \<and>
   fst (Cache_get (received stringify_string settings_theme (Entry ''theme'' ''dark'')) ''theme'') = 0"
proof -
  have b: "map_of (local_cache settings_theme) ''theme'' = Some 0"
    by (simp add: settings_theme_eq)
  have t: "type (Entry ''theme'' ''dark'') = ''entry''"
    and k: "Message.key (Entry ''theme'' ''dark'') = ''theme''"
    by simp_all
  note r = entry_overwrites_value_in_place
    [OF wf_settings_theme b t k, where js = stringify_string]
  from r have "onMessage stringify_string settings_theme (Entry ''theme'' ''dark'') =
      Inr (settings_theme\<lparr>store := (store settings_theme)
        [0 := (store settings_theme ! 0)\<lparr>value := Message.value (Entry ''theme'' ''dark'')\<rparr>]\<rparr>)"
    by (elim conjE)
  then have e: "store (received stringify_string settings_theme (Entry ''theme'' ''dark'')) =
      [\<lparr>key = ''theme'', value = Some ''dark'', requested = True\<rparr>]"
    by (simp add: received_def settings_theme_eq)
  from r have l: "fst (Cache_get (received stringify_string settings_theme (Entry ''theme'' ''dark'')) ''theme'') = 0"
    by (elim conjE)
  from wf_settings_theme b t k e l show ?thesis
    by (intro conjI)
qed

text \<open>
  C6. An inbound \<open>expiring\<close> message for a key with a local entry sets that entry's
  \<open>value\<close> to absent and changes nothing else: the key stays bound to the same
  reference, a later \<open>get\<close> returns it, and \<open>requested\<close> is what it was.
\<close>

theorem expiring_clears_value_keeps_record:
  assumes "wf c" and "map_of (local_cache c) k = Some ent"
    and "type m = ''expiring''" and "Message.key m = k"
  shows "onMessage js c m =
           Inr (c\<lparr>store := (store c)[ent := (store c ! ent)\<lparr>value := None\<rparr>]\<rparr>) \<and>
         map_of (local_cache (received js c m)) k = Some ent \<and>
         ent < length (store (received js c m)) \<and>
         value (store (received js c m) ! ent) = None \<and>
         key (store (received js c m) ! ent) = key (store c ! ent) \<and>
         requested (store (received js c m) ! ent) = requested (store c ! ent) \<and>
         is_requested (received js c m) k = is_requested c k \<and>
         fst (Cache_get (received js c m) k) = ent"
proof -
  have res: "onMessage js c m =
      Inr (c\<lparr>store := (store c)[ent := (store c ! ent)\<lparr>value := None\<rparr>]\<rparr>)"
    using assms(2-4) by (simp add: onMessage_def)
  then have eq: "received js c m =
      c\<lparr>store := (store c)[ent := (store c ! ent)\<lparr>value := None\<rparr>]\<rparr>"
    by (simp add: received_def)
  from wf_lookup [OF assms(1,2)] have lt: "ent < length (store c)" by simp
  have fields: "ent < length (store (received js c m)) \<and>
      value (store (received js c m) ! ent) = None \<and>
      key (store (received js c m) ! ent) = key (store c ! ent) \<and>
      requested (store (received js c m) ! ent) = requested (store c ! ent)"
    using lt by (simp add: eq)
  have bound: "map_of (local_cache (received js c m)) k = Some ent"
    using assms(2) by simp
  have latch: "is_requested (received js c m) k = is_requested c k"
    using assms(2) fields by (simp add: is_requested_def)
  have later: "fst (Cache_get (received js c m) k) = ent"
    using assms(2) by (simp add: cached_hit)
  from res bound fields latch later show ?thesis
    by blast
qed

theorem expiring_clears_value_keeps_record_witness:
  "wf settings_light \<and> map_of (local_cache settings_light) ''theme'' = Some 0 \<and>
   type (Expiring ''theme'' :: string Message) = ''expiring'' \<and>
   Message.key (Expiring ''theme'' :: string Message) = ''theme'' \<and>
   store (received stringify_string settings_light (Expiring ''theme'')) =
     [\<lparr>key = ''theme'', value = None, requested = True\<rparr>] \<and>
   map_of (local_cache (received stringify_string settings_light (Expiring ''theme''))) ''theme'' = Some 0 \<and>
   fst (Cache_get (received stringify_string settings_light (Expiring ''theme'')) ''theme'') = 0"
proof -
  have b: "map_of (local_cache settings_light) ''theme'' = Some 0"
    by (simp add: settings_light_eq)
  have t: "type (Expiring ''theme'' :: string Message) = ''expiring''"
    and k: "Message.key (Expiring ''theme'' :: string Message) = ''theme''"
    by simp_all
  note r = expiring_clears_value_keeps_record
    [OF wf_settings_light b t k, where js = stringify_string]
  from r have "onMessage stringify_string settings_light (Expiring ''theme'') =
      Inr (settings_light\<lparr>store := (store settings_light)
        [0 := (store settings_light ! 0)\<lparr>value := None\<rparr>]\<rparr>)"
    by (elim conjE)
  then have e: "store (received stringify_string settings_light (Expiring ''theme'')) =
      [\<lparr>key = ''theme'', value = None, requested = True\<rparr>]"
    by (simp add: received_def settings_light_eq)
  from r have m: "map_of (local_cache (received stringify_string settings_light (Expiring ''theme''))) ''theme'' = Some 0"
    by (elim conjE)
  from r have l: "fst (Cache_get (received stringify_string settings_light (Expiring ''theme'')) ''theme'') = 0"
    by (elim conjE)
  from wf_settings_light b t k e m l show ?thesis
    by (intro conjI)
qed

text \<open>
  C7. An inbound message of type \<open>entry\<close> for a key without a local entry changes
  nothing: the state after the listener is the state before it.
\<close>

theorem entry_for_unknown_key_ignored:
  "type m = ''entry'' \<Longrightarrow> map_of (local_cache c) (Message.key m) = None \<Longrightarrow>
   onMessage js c m = Inr c"
  by (simp add: onMessage_def)

theorem entry_for_unknown_key_ignored_witness:
  "type (Entry ''volume'' ''7'') = ''entry'' \<and>
   map_of (local_cache settings_theme) (Message.key (Entry ''volume'' ''7'')) = None \<and>
   onMessage stringify_string settings_theme (Entry ''volume'' ''7'') = Inr settings_theme"
proof -
  have t: "type (Entry ''volume'' ''7'') = ''entry''" by simp
  have n: "map_of (local_cache settings_theme) (Message.key (Entry ''volume'' ''7'')) = None"
    by (simp add: eval_defs)
  from entry_for_unknown_key_ignored [OF t n] t n show ?thesis by simp
qed

text \<open>
  C8. An inbound message whose type is neither \<open>entry\<close> nor \<open>expiring\<close> is meant to be
  logged and ignored, without an exception. The listener leaves the map, the store and
  the port as they are, but it does not always return: on a message that
  \<open>JSON.stringify\<close> cannot render, here one of type \<open>bogus\<close> whose value is a \<open>BigInt\<close>,
  it ends with a \<open>TypeError\<close> instead, in any state, and no warning reaches the console.
\<close>

theorem unknown_message_with_bigint_throws:
  "onMessage stringify_js_value c
     \<lparr>type = ''bogus'', key = ''theme'', value = Some (JBigInt 10)\<rparr> = Inl TypeError \<and>
   received stringify_js_value c
     \<lparr>type = ''bogus'', key = ''theme'', value = Some (JBigInt 10)\<rparr> = c"
  by (simp add: received_def onMessage_def stringify_js_value_def)

text \<open>
  C9. \<open>get\<close> returns the entry bound to the key. When the key had none, \<open>_cached\<close>
  first creates one with \<open>value\<close> absent and \<open>requested\<close> false, which the fetch logic
  then marks as requested. A further \<open>get\<close> of the key, repeated any number of times,
  returns the same reference and leaves the state as it is; after other operations it
  still returns the same reference.
\<close>

theorem get_creates_and_returns_entry:
  assumes "wf c" and "Cache_get c k = (ent, c1)"
  shows "map_of (local_cache c1) k = Some ent \<and>
         ent < length (store c1) \<and>
         key (store c1 ! ent) = k \<and>
         (map_of (local_cache c) k = None \<longrightarrow>
            Cache_cached c k =
              (ent, c\<lparr>store := store c @ [\<lparr>key = k, value = None, requested = False\<rparr>],
                      local_cache := local_cache c @ [(k, ent)]\<rparr>) \<and>
            ent = length (store c) \<and>
            store c1 = store c @ [\<lparr>key = k, value = None, requested = True\<rparr>]) \<and>
         (\<forall>r. map_of (local_cache c) k = Some r \<longrightarrow> ent = r \<and> local_cache c1 = local_cache c) \<and>
         requested (store c1 ! ent) \<and>
         Cache_get c1 k = (ent, c1) \<and>
         Cache_get (run js c1 (replicate n (Get k))) k = (ent, c1) \<and>
         fst (Cache_get (run js c1 ops) k) = ent"
proof -
  note b = get_bound [OF assms]
  have "Cache_cached c k =
          (ent, c\<lparr>store := store c @ [\<lparr>key = k, value = None, requested = False\<rparr>],
                  local_cache := local_cache c @ [(k, ent)]\<rparr>) \<and>
        ent = length (store c) \<and>
        store c1 = store c @ [\<lparr>key = k, value = None, requested = True\<rparr>]"
    if "map_of (local_cache c) k = None"
    using that assms(2) by (auto simp: get_miss cached_miss)
  moreover have "\<forall>r. map_of (local_cache c) k = Some r \<longrightarrow>
      ent = r \<and> local_cache c1 = local_cache c"
  proof (intro allI impI)
    fix r
    assume "map_of (local_cache c) k = Some r"
    with assms(2) show "ent = r \<and> local_cache c1 = local_cache c"
      by (cases "requested (store c ! r)")
         (auto simp: get_hit_requested get_hit_unrequested)
  qed
  moreover have "Cache_get c1 k = (ent, c1)"
    by (rule get_again [OF assms])
  moreover have "Cache_get (run js c1 (replicate n (Get k))) k = (ent, c1)"
    by (simp add: run_replicate_get [OF assms] get_again [OF assms])
  moreover have "fst (Cache_get (run js c1 ops) k) = ent"
    using get_after_run [OF wf_get [OF assms(1), of k], of k ent js ops] b assms(2) by simp
  ultimately show ?thesis using b by blast
qed

theorem get_creates_and_returns_entry_witness:
  "wf settings \<and> Cache_get settings ''theme'' = (0, settings_theme) \<and>
   map_of (local_cache settings) ''theme'' = None \<and>
   store settings_theme = [\<lparr>key = ''theme'', value = None, requested = True\<rparr>] \<and>
   Cache_get settings_theme ''theme'' = (0, settings_theme)"
proof -
  have g: "Cache_get settings ''theme'' = (0, settings_theme)"
    by (simp add: settings_theme_eq) (simp add: eval_defs)
  have n: "map_of (local_cache settings) ''theme'' = None"
    by (simp add: settings_def new_Cache_def)
  from get_creates_and_returns_entry [OF wf_settings g] wf_settings g n
  show ?thesis by (simp add: settings_def new_Cache_def)
qed

text \<open>
  C10. \<open>set\<close> posts one \<open>entry\<close> message and no \<open>fetch\<close>, and changes no entry's
  \<open>requested\<close> flag. On a key without an entry it creates the entry with \<open>requested\<close>
  false, so the next \<open>get\<close> of the key still posts a \<open>fetch\<close>.
\<close>

theorem set_leaves_requested_alone:
  assumes "wf c" and "Cache_set c k v = (ent, c1)"
  shows "posted (service c1) = posted (service c) @ [Entry k v] \<and>
         filter (\<lambda>m. type m = ''fetch'') (posted (service c1)) =
           filter (\<lambda>m. type m = ''fetch'') (posted (service c)) \<and>
         (\<forall>r < length (store c). requested (store c1 ! r) = requested (store c ! r)) \<and>
         is_requested c1 k = is_requested c k \<and>
         (map_of (local_cache c) k = None \<longrightarrow>
            \<not> requested (store c1 ! ent) \<and>
            posted (service (snd (Cache_get c1 k))) = posted (service c1) @ [Fetch k])"
proof (cases "map_of (local_cache c) k")
  case None
  with assms(2) have c1: "c1 = c\<lparr>local_cache := local_cache c @ [(k, length (store c))],
        service := postMessage (service c) (Entry k v),
        store := store c @ [\<lparr>key = k, value = Some v, requested = False\<rparr>]\<rparr>"
    and ent: "ent = length (store c)"
    by (auto simp: set_miss)
  have m: "map_of (local_cache c1) k = Some ent"
    using None by (simp add: c1 ent map_add_def)
  have nr: "\<not> requested (store c1 ! ent)"
    by (simp add: c1 ent)
  from get_hit_unrequested [OF m nr] None show ?thesis
    by (simp add: is_requested_def m nr) (simp add: c1 nth_append)
next
  case (Some r)
  with assms(2) have c1: "c1 = c\<lparr>service := postMessage (service c) (Entry k v),
             store := (store c)[r := (store c ! r)\<lparr>value := Some v\<rparr>]\<rparr>"
    and ent: "ent = r"
    by (auto simp: set_hit)
  from wf_lookup [OF assms(1) Some] have lt: "r < length (store c)" by simp
  show ?thesis
    using Some lt by (simp add: c1 is_requested_def nth_list_update)
qed

theorem set_leaves_requested_alone_witness:
  "wf settings \<and> map_of (local_cache settings) ''theme'' = None \<and>
   Cache_set settings ''theme'' ''light'' = (0, settings_set) \<and>
   \<not> requested (store settings_set ! 0) \<and>
   posted (service (snd (Cache_get settings_set ''theme''))) =
     [Entry ''theme'' ''light'', Fetch ''theme'']"
proof -
  have s: "Cache_set settings ''theme'' ''light'' = (0, settings_set)"
    by (simp add: settings_set_def) (simp add: eval_defs)
  have n: "map_of (local_cache settings) ''theme'' = None"
    by (simp add: settings_def new_Cache_def)
  have p: "posted (service settings_set) = [Entry ''theme'' ''light'']"
    by (simp add: settings_set_def eval_defs)
  note r = set_leaves_requested_alone [OF wf_settings s]
  from r n have q: "\<not> requested (store settings_set ! 0)"
    by blast
  from r n have "posted (service (snd (Cache_get settings_set ''theme''))) =
      posted (service settings_set) @ [Fetch ''theme'']"
    by blast
  then have f: "posted (service (snd (Cache_get settings_set ''theme''))) =
      [Entry ''theme'' ''light'', Fetch ''theme'']"
    by (simp add: p)
  from wf_settings n s q f show ?thesis
    by (intro conjI)
qed

end
